theory Spec2Isabelle
  imports Main
begin

section \<open>JavaScript values, errors and the object store\<close>

text \<open>
  The values that reach \<open>DependencyContainer\<close> at run time. A key is typed
  \<open>string | constructor\<close>, a stored injectable is typed \<open>any\<close>; the type
  annotations are erased, so every method can receive any value. A function
  (a class is one) is represented by its \<open>name\<close> property, the only thing the
  container reads of it: \<open>JFunction []\<close> is an anonymous function or class.
  The payload of a number is never inspected. \<open>JObject a\<close> is a reference to
  the object at address \<open>a\<close>.
\<close>

datatype jsval =
    JUndefined
  | JNull
  | JBoolean bool
  | JNumber int
  | JString string
  | JFunction string
  | JObject nat

text \<open>\<open>throw new Error(message)\<close>: the container throws nothing else.\<close>

datatype error = Error string

type_synonym addr = nat

text \<open>
  An instance of \<open>DependencyContainer\<close>: the \<open>Map<string, Injectable>\<close> and
  the optional parent reference (\<open>None\<close> is \<open>undefined\<close>).
\<close>

record container =
  dependencies :: "string \<rightharpoonup> jsval"
  parent :: "addr option"

text \<open>
  Containers are mutable objects that refer to each other, so they live in a
  store: \<open>objs\<close> gives the object at each address and \<open>next_addr\<close> is the first
  address that \<open>new\<close> has not handed out yet.
\<close>

record store =
  objs :: "addr \<Rightarrow> container"
  next_addr :: addr

definition allocated :: "store \<Rightarrow> addr \<Rightarrow> bool" where
  "allocated h a = (a < next_addr h)"

text \<open>The three operations of the built-in \<open>Map\<close> that the class uses.\<close>

definition Map_has :: "(string \<rightharpoonup> jsval) \<Rightarrow> string \<Rightarrow> bool" where
  "Map_has m k = (m k \<noteq> None)"

definition Map_get :: "(string \<rightharpoonup> jsval) \<Rightarrow> string \<Rightarrow> jsval" where
  "Map_get m k = (case m k of None \<Rightarrow> JUndefined | Some v \<Rightarrow> v)"

definition Map_set :: "(string \<rightharpoonup> jsval) \<Rightarrow> string \<Rightarrow> jsval \<Rightarrow> (string \<rightharpoonup> jsval)" where
  "Map_set m k v = m(k \<mapsto> v)"

section \<open>The class DependencyContainer\<close>

text \<open>
  \<open>constructor(parent?)\<close>: allocates the object at \<open>next_addr\<close> with an empty
  map and the given parent, and returns its address.
\<close>

definition new_DependencyContainer :: "store \<Rightarrow> addr option \<Rightarrow> addr \<times> store" where
  "new_DependencyContainer h p =
     (next_addr h,
      h\<lparr>objs := (objs h)(next_addr h := \<lparr>dependencies = Map.empty, parent = p\<rparr>),
        next_addr := Suc (next_addr h)\<rparr>)"

text \<open>
  \<open>getInjectableKey\<close>: \<open>key\<close> stays \<open>undefined\<close> (\<open>None\<close>) unless
  \<open>typeof injectable\<close> is \<open>'string'\<close> or \<open>'function'\<close>; \<open>!key\<close> holds of
  \<open>undefined\<close> and of the empty string. The method reads nothing but its
  argument and writes nothing, so it takes and returns no store.
\<close>

definition getInjectableKey :: "jsval \<Rightarrow> error + string" where
  "getInjectableKey injectable =
     (let key = (case injectable of
                   JString s \<Rightarrow> Some s
                 | JFunction name \<Rightarrow> Some name
                 | _ \<Rightarrow> None)
      in case key of
           None \<Rightarrow> Inl (Error ''Cannot get key for injectable.'')
         | Some k \<Rightarrow>
             if k = [] then Inl (Error ''Cannot get key for injectable.'')
             else Inr k)"

text \<open>
  \<open>register\<close>: the store comes back unchanged when the key is refused, since
  the exception leaves \<open>getInjectableKey\<close> before \<open>Map.set\<close> runs.
\<close>

definition register :: "store \<Rightarrow> addr \<Rightarrow> jsval \<Rightarrow> jsval \<Rightarrow> (error + unit) \<times> store" where
  "register h this key injectable =
     (case getInjectableKey key of
        Inl e \<Rightarrow> (Inl e, h)
      | Inr k \<Rightarrow>
          (Inr (),
           h\<lparr>objs := (objs h)(this := (objs h this)
                \<lparr>dependencies := Map_set (dependencies (objs h this)) k injectable\<rparr>)\<rparr>))"

text \<open>
  \<open>get\<close> reads the store and recurses along the parent references, which may
  form a cycle: the result \<open>None\<close> is a call that never returns.
\<close>

partial_function (option) get :: "store \<Rightarrow> addr \<Rightarrow> jsval \<Rightarrow> (error + jsval) option" where
  "get h this injectable =
     (case getInjectableKey injectable of
        Inl e \<Rightarrow> Some (Inl e)
      | Inr key \<Rightarrow>
          if Map_has (dependencies (objs h this)) key
          then Some (Inr (Map_get (dependencies (objs h this)) key))
          else (case parent (objs h this) of
                  Some p \<Rightarrow> get h p injectable
                | None \<Rightarrow> Some (Inr JUndefined)))"

text \<open>
  \<open>require\<close>: \<open>get\<close> first (its exception, or its failure to return, is that
  of \<open>require\<close>), then the test \<open>value === undefined\<close>.
\<close>

definition require :: "store \<Rightarrow> addr \<Rightarrow> jsval \<Rightarrow> (error + jsval) option" where
  "require h this injectable =
     (case get h this injectable of
        None \<Rightarrow> None
      | Some (Inl e) \<Rightarrow> Some (Inl e)
      | Some (Inr v) \<Rightarrow>
          if v = JUndefined
          then (case getInjectableKey injectable of
                  Inl e \<Rightarrow> Some (Inl e)
                | Inr name \<Rightarrow>
                    Some (Inl (Error (''Required dependency '' @ [CHR 0x27] @ name
                                      @ [CHR 0x27] @ '' not found in container''))))
          else Some (Inr v))"

text \<open>
  \<open>has\<close>: \<open>(this.dependencies.has(key) || this.parent?.has(key)) ?? false\<close>.
  The parent is asked with the resolved string \<open>key\<close>, not with the original
  argument; without a parent the right operand is \<open>undefined\<close> and \<open>??\<close> makes
  it \<open>false\<close>.
\<close>

partial_function (option) has :: "store \<Rightarrow> addr \<Rightarrow> jsval \<Rightarrow> (error + bool) option" where
  "has h this injectable =
     (case getInjectableKey injectable of
        Inl e \<Rightarrow> Some (Inl e)
      | Inr key \<Rightarrow>
          if Map_has (dependencies (objs h this)) key then Some (Inr True)
          else (case parent (objs h this) of
                  Some p \<Rightarrow> has h p (JString key)
                | None \<Rightarrow> Some (Inr False)))"

text \<open>\<open>extend\<close>: \<open>new DependencyContainer(this)\<close>.\<close>

definition extend :: "store \<Rightarrow> addr \<Rightarrow> addr \<times> store" where
  "extend h this = new_DependencyContainer h (Some this)"

text \<open>\<open>setParent\<close>: one assignment to the field \<open>parent\<close>.\<close>

definition setParent :: "store \<Rightarrow> addr \<Rightarrow> addr \<Rightarrow> store" where
  "setParent h this p = h\<lparr>objs := (objs h)(this := (objs h this)\<lparr>parent := Some p\<rparr>)\<rparr>"

section \<open>Parent chains and example stores\<close>

text \<open>
  \<open>ancestor h n a\<close> follows the parent reference \<open>n\<close> times from \<open>a\<close>;
  \<open>None\<close> means that the chain ended before.
\<close>

fun ancestor :: "store \<Rightarrow> nat \<Rightarrow> addr \<Rightarrow> addr option" where
  "ancestor h 0 a = Some a"
| "ancestor h (Suc n) a =
     (case parent (objs h a) of None \<Rightarrow> None | Some p \<Rightarrow> ancestor h n p)"

text \<open>The parent chain of \<open>a\<close> reaches a container without parent.\<close>

inductive finite_chain :: "store \<Rightarrow> addr \<Rightarrow> bool" where
  root: "parent (objs h a) = None \<Longrightarrow> finite_chain h a"
| link: "parent (objs h a) = Some p \<Longrightarrow> finite_chain h p \<Longrightarrow> finite_chain h a"

text \<open>
  Somewhere up the chain of \<open>a\<close> a lookup of \<open>k\<close> has a reason to stop: a
  container that holds \<open>k\<close>, or one without parent.
\<close>

definition lookup_stops :: "store \<Rightarrow> addr \<Rightarrow> string \<Rightarrow> bool" where
  "lookup_stops h a k =
     (\<exists>m b. ancestor h m a = Some b \<and>
            (Map_has (dependencies (objs h b)) k \<or> parent (objs h b) = None))"

text \<open>
  The store before any \<open>new\<close>, and the store of the test suite's
  \<open>beforeEach\<close>: \<open>container = new DependencyContainer()\<close>, at address 0.
\<close>

definition init_store :: store where
  "init_store = \<lparr>objs = (\<lambda>_. \<lparr>dependencies = Map.empty, parent = None\<rparr>), next_addr = 0\<rparr>"

definition root_store :: store where
  "root_store = snd (new_DependencyContainer init_store None)"

text \<open>
  Three root containers at the addresses 0, 1 and 2; the second and the third
  hold a value each under \<open>Service\<close>.
\<close>

definition three_store :: store where
  "three_store =
     snd (register
       (snd (register
         (snd (new_DependencyContainer (snd (new_DependencyContainer root_store None)) None))
         1 (JString ''Service'') (JNumber 1)))
       2 (JString ''Service'') (JNumber 2))"

section \<open>Basic facts\<close>

subsection \<open>Keys\<close>

lemma key_of_valid:
  "K = JString k \<or> K = JFunction k \<Longrightarrow> k \<noteq> [] \<Longrightarrow> getInjectableKey K = Inr k"
  by (auto simp: getInjectableKey_def)

lemma key_nonempty: "getInjectableKey K = Inr k \<Longrightarrow> k \<noteq> []"
  by (auto simp: getInjectableKey_def Let_def split: jsval.splits option.splits if_splits)

lemma key_valid_iff:
  "(\<exists>k. getInjectableKey K = Inr k) \<longleftrightarrow> (\<exists>k. k \<noteq> [] \<and> (K = JString k \<or> K = JFunction k))"
  by (cases K) (auto simp: getInjectableKey_def)

lemma key_of_invalid:
  "\<not> (\<exists>k. k \<noteq> [] \<and> (K = JString k \<or> K = JFunction k)) \<Longrightarrow>
   getInjectableKey K = Inl (Error ''Cannot get key for injectable.'')"
  by (cases K) (auto simp: getInjectableKey_def)

subsection \<open>One step of get and has\<close>

lemma get_hit:
  "getInjectableKey K = Inr k \<Longrightarrow> dependencies (objs h a) k = Some v \<Longrightarrow>
   get h a K = Some (Inr v)"
  by (subst get.simps) (simp add: Map_has_def Map_get_def)

lemma get_miss_parent:
  "getInjectableKey K = Inr k \<Longrightarrow> dependencies (objs h a) k = None \<Longrightarrow>
   parent (objs h a) = Some p \<Longrightarrow> get h a K = get h p K"
  by (subst get.simps) (simp add: Map_has_def)

lemma get_miss_root:
  "getInjectableKey K = Inr k \<Longrightarrow> dependencies (objs h a) k = None \<Longrightarrow>
   parent (objs h a) = None \<Longrightarrow> get h a K = Some (Inr JUndefined)"
  by (subst get.simps) (simp add: Map_has_def)

lemma get_invalid: "getInjectableKey K = Inl e \<Longrightarrow> get h a K = Some (Inl e)"
  by (subst get.simps) simp

lemma has_hit:
  "getInjectableKey K = Inr k \<Longrightarrow> dependencies (objs h a) k = Some v \<Longrightarrow>
   has h a K = Some (Inr True)"
  by (subst has.simps) (simp add: Map_has_def)

text \<open>
  The parent is asked with the resolved string instead of the original key;
  for a key that resolves, both give the same answer.
\<close>

lemma has_JString: "getInjectableKey K = Inr k \<Longrightarrow> has h a (JString k) = has h a K"
  by (subst has.simps, subst (2) has.simps)
     (simp add: key_of_valid key_nonempty)

lemma has_miss_parent:
  "getInjectableKey K = Inr k \<Longrightarrow> dependencies (objs h a) k = None \<Longrightarrow>
   parent (objs h a) = Some p \<Longrightarrow> has h a K = has h p K"
  by (subst has.simps) (simp add: Map_has_def has_JString)

lemma has_miss_root:
  "getInjectableKey K = Inr k \<Longrightarrow> dependencies (objs h a) k = None \<Longrightarrow>
   parent (objs h a) = None \<Longrightarrow> has h a K = Some (Inr False)"
  by (subst has.simps) (simp add: Map_has_def)

lemma has_invalid: "getInjectableKey K = Inl e \<Longrightarrow> has h a K = Some (Inl e)"
  by (subst has.simps) simp

subsection \<open>require in terms of get\<close>

lemma require_of_get:
  "get h a K = Some (Inr v) \<Longrightarrow> v \<noteq> JUndefined \<Longrightarrow> require h a K = Some (Inr v)"
  by (simp add: require_def)

lemma require_undefined:
  "get h a K = Some (Inr JUndefined) \<Longrightarrow> getInjectableKey K = Inr k \<Longrightarrow>
   require h a K =
     Some (Inl (Error (''Required dependency '' @ [CHR 0x27] @ k @ [CHR 0x27]
                       @ '' not found in container'')))"
  by (simp add: require_def)

lemma require_invalid: "getInjectableKey K = Inl e \<Longrightarrow> require h a K = Some (Inl e)"
  by (simp add: require_def get_invalid)

lemma require_cong: "get h a K = get h' b K \<Longrightarrow> require h a K = require h' b K"
  by (simp add: require_def)

subsection \<open>The store after register, extend and setParent\<close>

lemma register_valid:
  "getInjectableKey K = Inr k \<Longrightarrow>
   register h a K V =
     (Inr (), h\<lparr>objs := (objs h)(a := (objs h a)\<lparr>dependencies := (dependencies (objs h a))(k \<mapsto> V)\<rparr>)\<rparr>)"
  by (simp add: register_def Map_set_def)

lemma register_invalid: "getInjectableKey K = Inl e \<Longrightarrow> register h a K V = (Inl e, h)"
  by (simp add: register_def)

lemma register_frame: "b \<noteq> a \<Longrightarrow> objs (snd (register h a K V)) b = objs h b"
  by (cases "getInjectableKey K") (simp_all add: register_def)

lemma register_parent: "parent (objs (snd (register h a K V)) b) = parent (objs h b)"
  by (cases "getInjectableKey K") (simp_all add: register_def)

lemma register_next_addr: "next_addr (snd (register h a K V)) = next_addr h"
  by (cases "getInjectableKey K") (simp_all add: register_def)

lemma register_own:
  "getInjectableKey K = Inr k \<Longrightarrow>
   dependencies (objs (snd (register h a K V)) a) = (dependencies (objs h a))(k \<mapsto> V)"
  by (simp add: register_valid)

lemma extend_eq:
  "extend h a =
     (next_addr h,
      h\<lparr>objs := (objs h)(next_addr h := \<lparr>dependencies = Map.empty, parent = Some a\<rparr>),
        next_addr := Suc (next_addr h)\<rparr>)"
  by (simp add: extend_def new_DependencyContainer_def)

lemma setParent_objs:
  "objs (setParent h a p) = (objs h)(a := (objs h a)\<lparr>parent := Some p\<rparr>)"
  by (simp add: setParent_def)

lemma root_store_simps:
  "next_addr root_store = 1"
  "objs root_store a = \<lparr>dependencies = Map.empty, parent = None\<rparr>"
  by (simp_all add: root_store_def init_store_def new_DependencyContainer_def)

lemma three_store_simps:
  "dependencies (objs three_store 0) = Map.empty"
  "dependencies (objs three_store (Suc 0)) ''Service'' = Some (JNumber 1)"
  "dependencies (objs three_store 2) ''Service'' = Some (JNumber 2)"
  by (simp_all add: three_store_def register_def getInjectableKey_def Map_set_def
        new_DependencyContainer_def root_store_def init_store_def)

section \<open>The claims\<close>

text \<open>
  In the statements below a valid key \<open>K\<close> is a non-empty string
  (\<open>K = JString k\<close>) or a named function or class (\<open>K = JFunction k\<close>), with
  \<open>k \<noteq> []\<close>; \<open>k\<close> is then its resolved identifier. The errors that the
  specification calls InvalidKeyError and RequiredDependencyNotFoundError are
  the two \<open>Error\<close> values of the class, told apart by their messages.
\<close>

text \<open>
  C1. For every container \<open>R\<close>, every valid key \<open>K\<close> and every value \<open>V\<close>:
  \<open>R.register(K, V)\<close> returns normally, and immediately afterwards
  \<open>R.get(K)\<close> returns \<open>V\<close> and \<open>R.has(K)\<close> returns \<open>true\<close>.
\<close>

theorem register_then_get_has:
  assumes "K = JString k \<or> K = JFunction k" and "k \<noteq> []"
  shows "fst (register h R K V) = Inr () \<and>
         get (snd (register h R K V)) R K = Some (Inr V) \<and>
         has (snd (register h R K V)) R K = Some (Inr True)"
proof -
  have key: "getInjectableKey K = Inr k"
    using assms by (rule key_of_valid)
  then have own: "dependencies (objs (snd (register h R K V)) R) k = Some V"
    by (simp add: register_own)
  show ?thesis
    using key own by (simp add: register_valid get_hit has_hit)
qed

theorem register_then_get_has_witness:
  "get (snd (register root_store 0 (JString ''TestService'') (JNumber 1))) 0
       (JString ''TestService'') = Some (Inr (JNumber 1)) \<and>
   has (snd (register root_store 0 (JString ''TestService'') (JNumber 1))) 0
       (JString ''TestService'') = Some (Inr True)"
  using register_then_get_has
    [of "JString ''TestService''" "''TestService''" root_store 0 "JNumber 1"]
  by simp

text \<open>
  C2. Let \<open>child = parent.extend()\<close> for an allocated container \<open>parent\<close>, and
  let \<open>K\<close> be a valid key. After \<open>parent.register(K, V1)\<close> and
  \<open>child.register(K, V2)\<close>, in either order, \<open>child.get(K)\<close> returns \<open>V2\<close> and
  \<open>parent.get(K)\<close> returns \<open>V1\<close>. The child is an object other than the
  parent, and a \<open>register\<close> on the child leaves every other object of the
  store as it was, so nothing reaches the parent. In any store, a container
  that holds the identifier itself returns its own value, whatever its parent
  chain holds.
\<close>

theorem child_precedence:
  assumes valid: "K = JString k \<or> K = JFunction k" "k \<noteq> []"
    and alloc: "allocated h p"
    and ext: "extend h p = (c, h1)"
  shows "get (snd (register (snd (register h1 p K V1)) c K V2)) c K = Some (Inr V2) \<and>
         get (snd (register (snd (register h1 p K V1)) c K V2)) p K = Some (Inr V1) \<and>
         get (snd (register (snd (register h1 c K V2)) p K V1)) c K = Some (Inr V2) \<and>
         get (snd (register (snd (register h1 c K V2)) p K V1)) p K = Some (Inr V1) \<and>
         p \<noteq> c \<and>
         (\<forall>s K' V' a. a \<noteq> c \<longrightarrow> objs (snd (register s c K' V')) a = objs s a) \<and>
         (\<forall>s a v. dependencies (objs s a) k = Some v \<longrightarrow> get s a K = Some (Inr v))"
proof -
  have key: "getInjectableKey K = Inr k"
    using valid by (rule key_of_valid)
  have neq: "p \<noteq> c"
    using alloc ext by (auto simp: allocated_def extend_eq)
  have a: "dependencies (objs (snd (register (snd (register h1 p K V1)) c K V2)) c) k = Some V2"
    using key by (simp add: register_own)
  have b: "dependencies (objs (snd (register (snd (register h1 p K V1)) c K V2)) p) k = Some V1"
    using key neq by (simp add: register_frame register_own)
  have c: "dependencies (objs (snd (register (snd (register h1 c K V2)) p K V1)) c) k = Some V2"
    using key neq by (simp add: register_frame register_own)
  have d: "dependencies (objs (snd (register (snd (register h1 c K V2)) p K V1)) p) k = Some V1"
    using key by (simp add: register_own)
  show ?thesis
    using neq get_hit [OF key a] get_hit [OF key b] get_hit [OF key c] get_hit [OF key d]
    by (simp add: register_frame get_hit [OF key])
qed

theorem child_precedence_witness:
  "allocated root_store 0 \<and>
   get (snd (register (snd (register (snd (extend root_store 0)) 0
          (JString ''Service'') (JNumber 1))) (fst (extend root_store 0))
          (JString ''Service'') (JNumber 2)))
       (fst (extend root_store 0)) (JString ''Service'') = Some (Inr (JNumber 2)) \<and>
   get (snd (register (snd (register (snd (extend root_store 0)) 0
          (JString ''Service'') (JNumber 1))) (fst (extend root_store 0))
          (JString ''Service'') (JNumber 2)))
       0 (JString ''Service'') = Some (Inr (JNumber 1))"
proof -
  have alloc: "allocated root_store 0"
    by (simp add: allocated_def root_store_simps)
  show ?thesis
    using alloc child_precedence
      [of "JString ''Service''" "''Service''" root_store 0
          "fst (extend root_store 0)" "snd (extend root_store 0)" "JNumber 1" "JNumber 2"]
    by simp
qed

text \<open>
  C3. Let \<open>K\<close> be a valid key and \<open>parent\<close> an allocated container. After
  \<open>parent.register(K, V)\<close> and \<open>child = parent.extend()\<close>, \<open>child.get(K)\<close>
  returns \<open>V\<close> and \<open>child.has(K)\<close> returns \<open>true\<close>. In any store, \<open>extend\<close>
  returns an address that was not allocated before and is allocated after,
  whose object has the receiver as parent and an empty map, every other
  object being as before. In any store, a container whose own map lacks the
  identifier and whose parent is \<open>q\<close> answers \<open>get\<close> with what \<open>q\<close> answers,
  be it a value, \<open>undefined\<close>, or no answer at all.
\<close>

theorem parent_fallback:
  assumes valid: "K = JString k \<or> K = JFunction k" "k \<noteq> []"
    and alloc: "allocated h p"
    and ext: "extend (snd (register h p K V)) p = (c, h2)"
  shows "get h2 c K = Some (Inr V) \<and> has h2 c K = Some (Inr True) \<and>
         (\<forall>s a. \<not> allocated s (fst (extend s a)) \<and>
                allocated (snd (extend s a)) (fst (extend s a)) \<and>
                parent (objs (snd (extend s a)) (fst (extend s a))) = Some a \<and>
                dependencies (objs (snd (extend s a)) (fst (extend s a))) = Map.empty \<and>
                (\<forall>b. b \<noteq> fst (extend s a) \<longrightarrow>
                   objs (snd (extend s a)) b = objs s b \<and>
                   (allocated s b \<longrightarrow> allocated (snd (extend s a)) b))) \<and>
         (\<forall>s a q. \<not> Map_has (dependencies (objs s a)) k \<and> parent (objs s a) = Some q \<longrightarrow>
                get s a K = get s q K)"
proof -
  have key: "getInjectableKey K = Inr k"
    using valid by (rule key_of_valid)
  let ?h1 = "snd (register h p K V)"
  have c: "c = next_addr ?h1" and h2: "h2 = snd (extend ?h1 p)"
    using ext by (auto simp: extend_eq)
  have neq: "p \<noteq> c"
    using alloc c by (simp add: allocated_def register_next_addr)
  have own_c: "dependencies (objs h2 c) k = None" and par_c: "parent (objs h2 c) = Some p"
    unfolding h2 c by (simp_all add: extend_eq)
  have "objs h2 p = objs ?h1 p"
    using neq unfolding h2 c by (simp add: extend_eq)
  then have own_p: "dependencies (objs h2 p) k = Some V"
    using key by (simp add: register_own)
  have g: "get h2 c K = Some (Inr V)"
    using get_miss_parent [OF key own_c par_c] get_hit [OF key own_p] by simp
  have t: "has h2 c K = Some (Inr True)"
    using has_miss_parent [OF key own_c par_c] has_hit [OF key own_p] by simp
  have fresh: "\<forall>s a. \<not> allocated s (fst (extend s a)) \<and>
                allocated (snd (extend s a)) (fst (extend s a)) \<and>
                parent (objs (snd (extend s a)) (fst (extend s a))) = Some a \<and>
                dependencies (objs (snd (extend s a)) (fst (extend s a))) = Map.empty \<and>
                (\<forall>b. b \<noteq> fst (extend s a) \<longrightarrow>
                   objs (snd (extend s a)) b = objs s b \<and>
                   (allocated s b \<longrightarrow> allocated (snd (extend s a)) b))"
    by (simp add: extend_eq allocated_def)
  have deleg: "\<forall>s a q. \<not> Map_has (dependencies (objs s a)) k \<and> parent (objs s a) = Some q \<longrightarrow>
                get s a K = get s q K"
    using get_miss_parent [OF key] by (simp add: Map_has_def)
  show ?thesis
    using g t fresh deleg by blast
qed

theorem parent_fallback_witness:
  "allocated root_store 0 \<and>
   get (snd (extend (snd (register root_store 0 (JString ''ParentService'') (JNumber 7))) 0))
       (fst (extend (snd (register root_store 0 (JString ''ParentService'') (JNumber 7))) 0))
       (JString ''ParentService'') = Some (Inr (JNumber 7)) \<and>
   has (snd (extend (snd (register root_store 0 (JString ''ParentService'') (JNumber 7))) 0))
       (fst (extend (snd (register root_store 0 (JString ''ParentService'') (JNumber 7))) 0))
       (JString ''ParentService'') = Some (Inr True)"
proof -
  have alloc: "allocated root_store 0"
    by (simp add: allocated_def root_store_simps)
  show ?thesis
    using alloc parent_fallback
      [of "JString ''ParentService''" "''ParentService''" root_store 0 "JNumber 7"
          "fst (extend (snd (register root_store 0 (JString ''ParentService'') (JNumber 7))) 0)"
          "snd (extend (snd (register root_store 0 (JString ''ParentService'') (JNumber 7))) 0)"]
    by simp
qed

text \<open>
  C4. For every container without parent and every valid key \<open>K\<close> whose
  identifier \<open>k\<close> is not in the container's map: \<open>get(K)\<close> returns
  \<open>undefined\<close> and throws nothing, and \<open>require(K)\<close> throws the error whose
  message is \<open>Required dependency 'k' not found in container\<close>. In any store,
  when \<open>get(K)\<close> returns a value other than \<open>undefined\<close>, \<open>require(K)\<close>
  returns that value.
\<close>

theorem miss_semantics:
  assumes valid: "K = JString k \<or> K = JFunction k" "k \<noteq> []"
    and root: "parent (objs h R) = None"
    and miss: "\<not> Map_has (dependencies (objs h R)) k"
  shows "get h R K = Some (Inr JUndefined) \<and>
         require h R K =
           Some (Inl (Error (''Required dependency '' @ [CHR 0x27] @ k @ [CHR 0x27]
                             @ '' not found in container''))) \<and>
         (\<forall>s a v. get s a K = Some (Inr v) \<and> v \<noteq> JUndefined \<longrightarrow>
                require s a K = Some (Inr v))"
proof -
  have key: "getInjectableKey K = Inr k"
    using valid by (rule key_of_valid)
  have g: "get h R K = Some (Inr JUndefined)"
    using key root miss by (simp add: get_miss_root Map_has_def)
  show ?thesis
    using g require_undefined [OF g key] by (simp add: require_of_get)
qed

theorem miss_semantics_witness:
  "parent (objs root_store 0) = None \<and>
   \<not> Map_has (dependencies (objs root_store 0)) ''NonExistent'' \<and>
   get root_store 0 (JString ''NonExistent'') = Some (Inr JUndefined) \<and>
   require root_store 0 (JString ''NonExistent'') =
     Some (Inl (Error (''Required dependency '' @ [CHR 0x27] @ ''NonExistent'' @ [CHR 0x27]
                       @ '' not found in container'')))"
proof -
  have root: "parent (objs root_store 0) = None"
    and miss: "\<not> Map_has (dependencies (objs root_store 0)) ''NonExistent''"
    by (simp_all add: root_store_simps Map_has_def)
  show ?thesis
    using root miss
      miss_semantics [of "JString ''NonExistent''" "''NonExistent''" root_store 0]
    by simp
qed

text \<open>
  C5. \<open>getInjectableKey\<close> throws the error with message
  \<open>Cannot get key for injectable.\<close> for every argument that is the empty
  string, or is neither a string nor a named function or class (a number,
  \<open>null\<close>, \<open>undefined\<close>, a boolean, an object, an anonymous function or
  class). \<open>register\<close>, \<open>get\<close>, \<open>require\<close> and \<open>has\<close> throw that same error
  for such a key, and \<open>register\<close> leaves the store as it was.
\<close>

theorem invalid_key:
  assumes invalid:
    "K = JString [] \<or> \<not> (\<exists>s. K = JString s) \<and> \<not> (\<exists>n. n \<noteq> [] \<and> K = JFunction n)"
  shows "getInjectableKey K = Inl (Error ''Cannot get key for injectable.'') \<and>
         register h R K V = (Inl (Error ''Cannot get key for injectable.''), h) \<and>
         get h R K = Some (Inl (Error ''Cannot get key for injectable.'')) \<and>
         require h R K = Some (Inl (Error ''Cannot get key for injectable.'')) \<and>
         has h R K = Some (Inl (Error ''Cannot get key for injectable.''))"
proof -
  have "\<not> (\<exists>k. k \<noteq> [] \<and> (K = JString k \<or> K = JFunction k))"
    using invalid by auto
  then have key: "getInjectableKey K = Inl (Error ''Cannot get key for injectable.'')"
    by (rule key_of_invalid)
  show ?thesis
    using key by (simp add: register_invalid get_invalid require_invalid has_invalid)
qed

theorem invalid_key_witness:
  "getInjectableKey (JNumber 42) = Inl (Error ''Cannot get key for injectable.'') \<and>
   register root_store 0 (JNumber 42) JNull
     = (Inl (Error ''Cannot get key for injectable.''), root_store) \<and>
   get root_store 0 (JString []) = Some (Inl (Error ''Cannot get key for injectable.'')) \<and>
   require root_store 0 JNull = Some (Inl (Error ''Cannot get key for injectable.'')) \<and>
   has root_store 0 (JFunction []) = Some (Inl (Error ''Cannot get key for injectable.''))"
  using invalid_key [of "JNumber 42" root_store 0 JNull]
    invalid_key [of "JString []" root_store 0 JNull]
    invalid_key [of JNull root_store 0 JNull]
    invalid_key [of "JFunction []" root_store 0 JNull]
  by simp

text \<open>
  C6. For every non-empty \<open>k\<close>: the string \<open>k\<close> resolves to \<open>k\<close> itself, and a
  function or class named \<open>k\<close> resolves to \<open>k\<close>. The class \<open>MyService\<close>
  resolves to \<open>''MyService''\<close>, and a value registered under a class is found
  again under the same class.
\<close>

theorem key_resolution:
  assumes "k \<noteq> []"
  shows "getInjectableKey (JString k) = Inr k \<and>
         getInjectableKey (JFunction k) = Inr k \<and>
         getInjectableKey (JFunction ''MyService'') = Inr ''MyService'' \<and>
         get (snd (register h R (JFunction ''MyService'') V)) R (JFunction ''MyService'')
           = Some (Inr V) \<and>
         get (snd (register h R (JFunction k) V)) R (JFunction k) = Some (Inr V)"
proof -
  have s: "getInjectableKey (JString k) = Inr k" and f: "getInjectableKey (JFunction k) = Inr k"
    using assms by (simp_all add: key_of_valid)
  have m: "getInjectableKey (JFunction ''MyService'') = Inr ''MyService''"
    by (simp add: key_of_valid)
  show ?thesis
    using s f m by (simp add: get_hit register_own)
qed

theorem key_resolution_witness:
  "getInjectableKey (JString ''MyKey'') = Inr ''MyKey'' \<and>
   getInjectableKey (JFunction ''MyKey'') = Inr ''MyKey'' \<and>
   get (snd (register root_store 0 (JFunction ''MyKey'') (JObject 5))) 0 (JFunction ''MyKey'')
     = Some (Inr (JObject 5))"
  using key_resolution [of "''MyKey''" root_store 0 "JObject 5"]
  by simp

text \<open>
  C7. For every container \<open>R\<close>, valid key \<open>K\<close> and values \<open>V1\<close>, \<open>V2\<close>: after
  \<open>register(K, V1)\<close> and then \<open>register(K, V2)\<close>, \<open>get(K)\<close> returns \<open>V2\<close>, and
  the map of \<open>R\<close> is the one it had at the start with \<open>V2\<close> under the
  identifier: nothing of \<open>V1\<close> remains.
\<close>

theorem register_overwrites:
  assumes "K = JString k \<or> K = JFunction k" and "k \<noteq> []"
  shows "get (snd (register (snd (register h R K V1)) R K V2)) R K = Some (Inr V2) \<and>
         dependencies (objs (snd (register (snd (register h R K V1)) R K V2)) R) =
           (dependencies (objs h R))(k \<mapsto> V2)"
proof -
  have key: "getInjectableKey K = Inr k"
    using assms by (rule key_of_valid)
  have own: "dependencies (objs (snd (register (snd (register h R K V1)) R K V2)) R) =
           (dependencies (objs h R))(k \<mapsto> V2)"
    using key by (simp add: register_own)
  then show ?thesis
    using key by (simp add: get_hit)
qed

theorem register_overwrites_witness:
  "get (snd (register (snd (register root_store 0 (JString ''Service'') (JNumber 1))) 0
          (JString ''Service'') (JNumber 2))) 0 (JString ''Service'')
     = Some (Inr (JNumber 2))"
  using register_overwrites
    [of "JString ''Service''" "''Service''" root_store 0 "JNumber 1" "JNumber 2"]
  by simp

text \<open>
  C8. \<open>setParent(p)\<close> writes the parent reference of the receiver and nothing
  else: the receiver's map is the same, every other object is the same, no
  object is allocated. From then on, for a valid key \<open>K\<close> that the receiver's
  own map lacks, \<open>get\<close>, \<open>has\<close> and \<open>require\<close> on the receiver give what they
  give on \<open>p\<close>; for one that the own map holds, the own value is returned as
  before.
\<close>

theorem setParent_frame:
  assumes valid: "K = JString k \<or> K = JFunction k" "k \<noteq> []"
  shows "dependencies (objs (setParent h R p) R) = dependencies (objs h R) \<and>
         parent (objs (setParent h R p) R) = Some p \<and>
         (\<forall>b. b \<noteq> R \<longrightarrow> objs (setParent h R p) b = objs h b) \<and>
         next_addr (setParent h R p) = next_addr h \<and>
         (\<not> Map_has (dependencies (objs h R)) k \<longrightarrow>
            get (setParent h R p) R K = get (setParent h R p) p K \<and>
            has (setParent h R p) R K = has (setParent h R p) p K \<and>
            require (setParent h R p) R K = require (setParent h R p) p K) \<and>
         (Map_has (dependencies (objs h R)) k \<longrightarrow>
            get (setParent h R p) R K = Some (Inr (Map_get (dependencies (objs h R)) k)) \<and>
            has (setParent h R p) R K = Some (Inr True))"
proof -
  have key: "getInjectableKey K = Inr k"
    using valid by (rule key_of_valid)
  let ?h = "setParent h R p"
  have own: "dependencies (objs ?h R) = dependencies (objs h R)"
    and par: "parent (objs ?h R) = Some p"
    and frame: "\<forall>b. b \<noteq> R \<longrightarrow> objs ?h b = objs h b"
    and nxt: "next_addr ?h = next_addr h"
    by (simp_all add: setParent_def)
  have miss: "get ?h R K = get ?h p K \<and> has ?h R K = has ?h p K \<and>
              require ?h R K = require ?h p K"
    if "\<not> Map_has (dependencies (objs h R)) k"
  proof -
    from that own have none: "dependencies (objs ?h R) k = None"
      by (simp add: Map_has_def)
    have g: "get ?h R K = get ?h p K"
      using key none par by (rule get_miss_parent)
    have t: "has ?h R K = has ?h p K"
      using key none par by (rule has_miss_parent)
    show ?thesis
      using g t require_cong [OF g] by simp
  qed
  have hit: "get ?h R K = Some (Inr (Map_get (dependencies (objs h R)) k)) \<and>
             has ?h R K = Some (Inr True)"
    if "Map_has (dependencies (objs h R)) k"
  proof -
    from that obtain v where v: "dependencies (objs h R) k = Some v"
      by (auto simp: Map_has_def)
    then have "dependencies (objs ?h R) k = Some v"
      using own by simp
    then show ?thesis
      using key v by (simp add: get_hit has_hit Map_get_def)
  qed
  show ?thesis
    using own par frame nxt miss hit by blast
qed

text \<open>
  The re-parenting test of the suite: the child at address 0 holds nothing,
  the containers at 1 and 2 hold different values under \<open>Service\<close>; the child
  sees the value of whichever was set as its parent last.
\<close>

theorem setParent_frame_witness:
  "get (setParent three_store 0 1) 0 (JString ''Service'') = Some (Inr (JNumber 1)) \<and>
   get (setParent (setParent three_store 0 1) 0 2) 0 (JString ''Service'')
     = Some (Inr (JNumber 2)) \<and>
   dependencies (objs (setParent (setParent three_store 0 1) 0 2) 0)
     = dependencies (objs three_store 0)"
proof -
  have key: "getInjectableKey (JString ''Service'') = Inr ''Service''"
    by (simp add: key_of_valid)
  have miss: "\<not> Map_has (dependencies (objs three_store 0)) ''Service''"
    "\<not> Map_has (dependencies (objs (setParent three_store 0 1) 0)) ''Service''"
    by (simp_all add: three_store_simps setParent_def Map_has_def)
  have one: "get (setParent three_store 0 1) 1 (JString ''Service'') = Some (Inr (JNumber 1))"
    by (rule get_hit [OF key]) (simp add: three_store_simps setParent_def)
  have two: "get (setParent (setParent three_store 0 1) 0 2) 2 (JString ''Service'')
               = Some (Inr (JNumber 2))"
    by (rule get_hit [OF key]) (simp add: three_store_simps setParent_def)
  show ?thesis
    using miss one two
      setParent_frame [of "JString ''Service''" "''Service''" three_store 0 1]
      setParent_frame [of "JString ''Service''" "''Service''" "setParent three_store 0 1" 0 2]
    by simp
qed

subsection \<open>Chains that end and chains that do not\<close>

lemma finite_chain_ends: "finite_chain h a \<Longrightarrow> \<exists>n. ancestor h n a = None"
proof (induction rule: finite_chain.induct)
  case (root h a)
  then have "ancestor h (Suc 0) a = None" by simp
  then show ?case by blast
next
  case (link h a p)
  then obtain n where "ancestor h n p = None" by blast
  with link.hyps(1) have "ancestor h (Suc n) a = None" by simp
  then show ?case by blast
qed

lemma ends_finite_chain: "ancestor h n a = None \<Longrightarrow> finite_chain h a"
proof (induction n arbitrary: a)
  case 0
  then show ?case by simp
next
  case (Suc n)
  show ?case
  proof (cases "parent (objs h a)")
    case None
    then show ?thesis by (rule finite_chain.root)
  next
    case (Some p)
    with Suc.prems have "ancestor h n p = None" by simp
    then have "finite_chain h p" by (rule Suc.IH)
    with Some show ?thesis by (rule finite_chain.link)
  qed
qed

lemma finite_chain_iff: "finite_chain h a \<longleftrightarrow> (\<exists>n. ancestor h n a = None)"
  using finite_chain_ends ends_finite_chain by blast

lemma ancestor_add:
  "ancestor h (m + n) a = (case ancestor h m a of None \<Rightarrow> None | Some b \<Rightarrow> ancestor h n b)"
  by (induction m arbitrary: a) (simp_all split: option.splits)

lemma cycle_mult:
  assumes "ancestor h n c = Some c"
  shows "ancestor h (j * n) c = Some c"
proof (induction j)
  case 0
  show ?case by simp
next
  case (Suc j)
  have "ancestor h (j * n + n) c = Some c"
    using Suc assms by (simp only: ancestor_add option.case)
  then show ?case by (simp add: add.commute)
qed

lemma cycle_never_ends:
  assumes cyc: "ancestor h n c = Some c" and pos: "0 < n"
  shows "ancestor h m c \<noteq> None"
proof
  assume none: "ancestor h m c = None"
  have "m \<le> m * n" using pos by simp
  then obtain r where r: "m * n = m + r"
    using le_Suc_ex by blast
  have "ancestor h (m + r) c = None"
    using none by (simp only: ancestor_add option.case)
  with r cycle_mult [OF cyc, of m] show False by simp
qed

lemma into_cycle_never_ends:
  assumes reach: "ancestor h i a = Some c" and cyc: "ancestor h n c = Some c" and pos: "0 < n"
  shows "ancestor h m a \<noteq> None"
proof
  assume none: "ancestor h m a = None"
  have "ancestor h (m + i) a = None"
    using none by (simp only: ancestor_add option.case)
  then have "ancestor h (i + m) a = None"
    by (simp add: add.commute)
  then have "ancestor h m c = None"
    using reach by (simp add: ancestor_add)
  with cycle_never_ends [OF cyc pos] show False by blast
qed

text \<open>A chain that leads into a cycle is not finite, and a finite one meets no cycle.\<close>

lemma cycle_not_finite:
  "ancestor h i a = Some c \<Longrightarrow> ancestor h n c = Some c \<Longrightarrow> 0 < n \<Longrightarrow> \<not> finite_chain h a"
  using into_cycle_never_ends finite_chain_iff by blast

subsection \<open>A lookup that returns had a reason to stop\<close>

lemma stops_here:
  "Map_has (dependencies (objs h a)) k \<or> parent (objs h a) = None \<Longrightarrow> lookup_stops h a k"
proof -
  assume r: "Map_has (dependencies (objs h a)) k \<or> parent (objs h a) = None"
  have "ancestor h 0 a = Some a" by simp
  with r show ?thesis unfolding lookup_stops_def by blast
qed

lemma stops_up:
  assumes p: "parent (objs h a) = Some p" and up: "lookup_stops h p k"
  shows "lookup_stops h a k"
proof -
  from up obtain m b where mb: "ancestor h m p = Some b"
    and r: "Map_has (dependencies (objs h b)) k \<or> parent (objs h b) = None"
    unfolding lookup_stops_def by blast
  from p mb have "ancestor h (Suc m) a = Some b" by simp
  with r show ?thesis unfolding lookup_stops_def by blast
qed

lemma get_returns_reason:
  assumes ret: "get h a K = Some y"
  shows "getInjectableKey K = Inr k \<longrightarrow> lookup_stops h a k"
  apply (rule get.raw_induct
      [where P = "\<lambda>h a K y. getInjectableKey K = Inr k \<longrightarrow> lookup_stops h a k", OF _ ret])
  apply (auto split: sum.splits if_splits option.splits intro: stops_here stops_up)
  done

lemma has_returns_reason:
  assumes ret: "has h a K = Some y"
  shows "getInjectableKey K = Inr k \<longrightarrow> lookup_stops h a k"
  apply (rule has.raw_induct
      [where P = "\<lambda>h a K y. getInjectableKey K = Inr k \<longrightarrow> lookup_stops h a k", OF _ ret])
  apply (auto split: sum.splits if_splits option.splits intro: stops_here)
  subgoal premises prems for f h this injectable y p
  proof -
    have "getInjectableKey (JString k) = Inr k"
      using key_nonempty [OF prems(2)] by (simp add: key_of_valid)
    with prems(1) [OF prems(5)] have "lookup_stops h p k" by simp
    with prems(4) show ?thesis by (rule stops_up)
  qed
  done

subsection \<open>Lookups on a finite chain return\<close>

lemma get_terminates: "finite_chain h a \<Longrightarrow> \<exists>r. get h a K = Some r"
proof (induction rule: finite_chain.induct)
  case (root h a)
  show ?case
    by (subst get.simps) (simp add: root split: sum.split)
next
  case (link h a p)
  then obtain r where "get h p K = Some r" by blast
  then show ?case
    by (subst get.simps) (simp add: link.hyps(1) split: sum.split)
qed

lemma has_terminates: "finite_chain h a \<Longrightarrow> \<exists>r. has h a K = Some r"
proof (induction arbitrary: K rule: finite_chain.induct)
  case (root h a)
  show ?case
    by (subst has.simps) (simp add: root split: sum.split)
next
  case (link h a p)
  show ?case
  proof (cases "getInjectableKey K")
    case (Inl e)
    then show ?thesis by (simp add: has_invalid)
  next
    case (Inr key)
    from link.IH [of "JString key"] obtain r where "has h p (JString key) = Some r"
      by blast
    then show ?thesis
      by (subst has.simps) (simp add: Inr link.hyps(1))
  qed
qed

lemma require_terminates:
  assumes "finite_chain h a"
  shows "\<exists>r. require h a K = Some r"
proof -
  from get_terminates [OF assms] obtain r where "get h a K = Some r" by blast
  then show ?thesis
    by (simp add: require_def split: sum.split)
qed

text \<open>
  C9. On a container whose parent chain is finite (it reaches a container
  without parent, so it has no cycle), \<open>get\<close>, \<open>has\<close> and \<open>require\<close> return
  (a value or an exception) for every key. Nothing detects a cycle: when the
  chain of \<open>a\<close> leads in \<open>i\<close> steps to a container \<open>c\<close> that is its own \<open>n\<close>-th
  ancestor (\<open>i = 0\<close> when \<open>a\<close> is on the cycle), and no container on the way
  holds the identifier of the valid key \<open>K\<close>, then \<open>get\<close>, \<open>has\<close> and
  \<open>require\<close> recurse without end and never return.
\<close>

theorem lookup_termination:
  "(finite_chain h a \<longrightarrow>
      (\<exists>r. get h a K = Some r) \<and> (\<exists>r. has h a K = Some r) \<and> (\<exists>r. require h a K = Some r)) \<and>
   ((K = JString k \<or> K = JFunction k) \<and> k \<noteq> [] \<and>
    ancestor h i a = Some c \<and> 0 < n \<and> ancestor h n c = Some c \<and>
    (\<forall>m b. ancestor h m a = Some b \<longrightarrow> \<not> Map_has (dependencies (objs h b)) k) \<longrightarrow>
      get h a K = None \<and> has h a K = None \<and> require h a K = None)"
proof (intro conjI impI)
  assume "finite_chain h a"
  then show "\<exists>r. get h a K = Some r" "\<exists>r. has h a K = Some r" "\<exists>r. require h a K = Some r"
    by (rule get_terminates, rule has_terminates, rule require_terminates)
next
  assume hyp: "(K = JString k \<or> K = JFunction k) \<and> k \<noteq> [] \<and>
    ancestor h i a = Some c \<and> 0 < n \<and> ancestor h n c = Some c \<and>
    (\<forall>m b. ancestor h m a = Some b \<longrightarrow> \<not> Map_has (dependencies (objs h b)) k)"
  then have key: "getInjectableKey K = Inr k"
    by (simp add: key_of_valid)
  have no_reason: "\<not> lookup_stops h a k"
  proof
    assume "lookup_stops h a k"
    then obtain m b where mb: "ancestor h m a = Some b"
      and "Map_has (dependencies (objs h b)) k \<or> parent (objs h b) = None"
      unfolding lookup_stops_def by blast
    with hyp have "parent (objs h b) = None" by blast
    then have "ancestor h (m + 1) a = None"
      using mb by (simp only: ancestor_add) simp
    moreover have "ancestor h (m + 1) a \<noteq> None"
      using hyp by (intro into_cycle_never_ends [of h i a c n]) simp_all
    ultimately show False by blast
  qed
  show g: "get h a K = None"
    using get_returns_reason [of h a K _ k] key no_reason by (cases "get h a K") auto
  show "has h a K = None"
    using has_returns_reason [of h a K _ k] key no_reason by (cases "has h a K") auto
  show "require h a K = None"
    using g by (simp add: require_def)
qed

text \<open>
  A root container answers; the same container made its own parent does not,
  for a key it does not hold.
\<close>

theorem lookup_termination_witness:
  "finite_chain root_store 0 \<and>
   (\<exists>r. get root_store 0 (JString ''x'') = Some r) \<and>
   (\<exists>r. has root_store 0 (JString ''x'') = Some r) \<and>
   (\<exists>r. require root_store 0 (JString ''x'') = Some r) \<and>
   ancestor (setParent root_store 0 0) 1 0 = Some 0 \<and>
   get (setParent root_store 0 0) 0 (JString ''x'') = None \<and>
   has (setParent root_store 0 0) 0 (JString ''x'') = None \<and>
   require (setParent root_store 0 0) 0 (JString ''x'') = None"
proof -
  have fin: "finite_chain root_store 0"
    by (rule finite_chain.root) (simp add: root_store_simps)
  have here: "ancestor (setParent root_store 0 0) 0 0 = Some 0"
    by simp
  have cyc: "ancestor (setParent root_store 0 0) 1 0 = Some 0"
    by (simp add: setParent_def)
  have miss: "\<forall>m b. ancestor (setParent root_store 0 0) m 0 = Some b \<longrightarrow>
                \<not> Map_has (dependencies (objs (setParent root_store 0 0) b)) ''x''"
    by (simp add: setParent_def root_store_simps Map_has_def)
  show ?thesis
    using fin here cyc miss
      lookup_termination [of root_store 0 "JString ''x''"]
      lookup_termination
        [of "setParent root_store 0 0" 0 "JString ''x''" "''x''" 0 0 1]
    by simp
qed

text \<open>
  C10. \<open>undefined\<close> stands for "absent" and a registered \<open>undefined\<close> cannot
  be told from it: for every container \<open>R\<close> and valid key \<open>K\<close>, after
  \<open>R.register(K, undefined)\<close> the map of \<open>R\<close> holds the identifier,
  \<open>R.has(K)\<close> returns \<open>true\<close> and \<open>R.get(K)\<close> returns \<open>undefined\<close>, yet
  \<open>R.require(K)\<close> throws the not-found error: it tests the value that \<open>get\<close>
  returned, not the presence of the entry.
\<close>

theorem undefined_is_absent:
  assumes valid: "K = JString k \<or> K = JFunction k" "k \<noteq> []"
  shows "has (snd (register h R K JUndefined)) R K = Some (Inr True) \<and>
         get (snd (register h R K JUndefined)) R K = Some (Inr JUndefined) \<and>
         Map_has (dependencies (objs (snd (register h R K JUndefined)) R)) k \<and>
         require (snd (register h R K JUndefined)) R K =
           Some (Inl (Error (''Required dependency '' @ [CHR 0x27] @ k @ [CHR 0x27]
                             @ '' not found in container'')))"
proof -
  have key: "getInjectableKey K = Inr k"
    using valid by (rule key_of_valid)
  have own: "dependencies (objs (snd (register h R K JUndefined)) R) k = Some JUndefined"
    using key by (simp add: register_own)
  have g: "get (snd (register h R K JUndefined)) R K = Some (Inr JUndefined)"
    using key own by (rule get_hit)
  show ?thesis
    using g own has_hit [OF key own] require_undefined [OF g key] by (simp add: Map_has_def)
qed

theorem undefined_is_absent_witness:
  "has (snd (register root_store 0 (JString ''Cfg'') JUndefined)) 0 (JString ''Cfg'')
     = Some (Inr True) \<and>
   require (snd (register root_store 0 (JString ''Cfg'') JUndefined)) 0 (JString ''Cfg'') =
     Some (Inl (Error (''Required dependency '' @ [CHR 0x27] @ ''Cfg'' @ [CHR 0x27]
                       @ '' not found in container'')))"
  using undefined_is_absent [of "JString ''Cfg''" "''Cfg''" root_store 0]
  by simp

end
